theory Spec2Isabelle
  imports Main
begin

section \<open>Python values and errors\<close>

text \<open>
  The program is FTM_Rev07.py. Python integers are unbounded, so they are \<open>int\<close>;
  Python's \<open>//\<close> and \<open>%\<close> round towards minus infinity, as \<open>div\<close> and \<open>mod\<close>
  on \<open>int\<close> do. Every exception the modelled lines can raise is a value of \<open>py_error\<close>,
  and a function that can raise returns \<open>py_error + 'a\<close> with \<open>Inl\<close> for the exception.
\<close>

datatype py_error =
    FileNotFoundError
  | OSError
  | ValueError
  | TypeError
  | AttributeError
  | KeyError
  | IndexError
  | ZeroDivisionError

section \<open>Step scheduler (run_ftmp_forever, lines 125-127 and 202-209)\<close>

text \<open>
  \<open>base_steps = audio_hz // cfg.fps_target\<close> and \<open>rem_steps = audio_hz % cfg.fps_target\<close>
  raise ZeroDivisionError when the frame rate is 0; \<open>step_acc\<close> starts at 0.
\<close>

definition sched_init :: "int \<Rightarrow> int \<Rightarrow> py_error + (int \<times> int \<times> int)" where
  "sched_init audio_hz fps_target =
     (if fps_target = 0 then Inl ZeroDivisionError
      else Inr (audio_hz div fps_target, audio_hz mod fps_target, 0))"

text \<open>
  One frame (lines 202-206): the value of \<open>steps\<close> and the new \<open>step_acc\<close>.
\<close>

definition sched_frame :: "int \<Rightarrow> int \<Rightarrow> int \<Rightarrow> int \<Rightarrow> int \<times> int" where
  "sched_frame base_steps rem_steps fps_target step_acc =
     (let steps = base_steps;
          acc = step_acc + rem_steps
      in if acc \<ge> fps_target then (steps + 1, acc - fps_target) else (steps, acc))"

text \<open>
  Line 209, \<open>for _ in range(max(1, steps))\<close>: the number of machine steps a frame runs.
\<close>

definition steps_run :: "int \<Rightarrow> int" where
  "steps_run steps = max 1 steps"

text \<open>
  \<open>n\<close> consecutive frames: the list of the values of \<open>steps\<close>, frame by frame, and the
  accumulator left behind.
\<close>

fun sched_frames :: "nat \<Rightarrow> int \<Rightarrow> int \<Rightarrow> int \<Rightarrow> int \<Rightarrow> int list \<times> int" where
  "sched_frames 0 base_steps rem_steps fps_target step_acc = ([], step_acc)"
| "sched_frames (Suc n) base_steps rem_steps fps_target step_acc =
     (case sched_frame base_steps rem_steps fps_target step_acc of
        (steps, acc) \<Rightarrow>
          (case sched_frames n base_steps rem_steps fps_target acc of
             (ss, acc') \<Rightarrow> (steps # ss, acc')))"

section \<open>Delay line: a bounded deque (collections.deque with maxlen)\<close>

text \<open>
  \<open>deque(iterable, maxlen=m)\<close> keeps the last \<open>m\<close> items of the iterable. \<open>append\<close> on a
  deque that already holds \<open>maxlen\<close> items discards the leftmost item to make room;
  with \<open>maxlen = 0\<close> nothing is stored. \<open>popleft\<close> on an empty deque raises IndexError.
\<close>

record deque =
  items :: "int list"
  maxlen :: nat

definition deque_new :: "int list \<Rightarrow> nat \<Rightarrow> deque" where
  "deque_new xs m = \<lparr>items = drop (length xs - m) xs, maxlen = m\<rparr>"

definition deque_append :: "deque \<Rightarrow> int \<Rightarrow> deque" where
  "deque_append d x =
     (if maxlen d = 0 then d
      else if length (items d) \<ge> maxlen d then d\<lparr>items := tl (items d) @ [x]\<rparr>
      else d\<lparr>items := items d @ [x]\<rparr>)"

definition deque_popleft :: "deque \<Rightarrow> py_error + (int \<times> deque)" where
  "deque_popleft d =
     (case items d of
        [] \<Rightarrow> Inl IndexError
      | x # xs \<Rightarrow> Inr (x, d\<lparr>items := xs\<rparr>))"

section \<open>Delay knob (run_ftmp_forever, lines 107-110 and set_delay, lines 142-151)\<close>

text \<open>
  The closure variables \<open>delay_samples\<close> and \<open>delay_line\<close> that \<open>set_delay\<close> rebinds.
  \<open>MIN_DELAY\<close> is 0 and \<open>MAX_DELAY\<close> is \<open>audio_hz\<close>.
\<close>

record knobs =
  delay_samples :: int
  delay_line :: deque

definition MIN_DELAY :: int where
  "MIN_DELAY = 0"

definition knobs_init :: knobs where
  "knobs_init =
     \<lparr>delay_samples = 0,
      delay_line = deque_new (replicate (nat (max 1 0)) 0) (nat (max 1 0))\<rparr>"

definition clamp_delay :: "int \<Rightarrow> int \<Rightarrow> int" where
  "clamp_delay MAX_DELAY new_delay = max MIN_DELAY (min MAX_DELAY new_delay)"

definition set_delay :: "int \<Rightarrow> int \<Rightarrow> knobs \<Rightarrow> knobs" where
  "set_delay MAX_DELAY new_delay k =
     (let new_delay = clamp_delay MAX_DELAY new_delay
      in if new_delay = delay_samples k then k
         else if new_delay \<le> 0
              then k\<lparr>delay_samples := new_delay, delay_line := deque_new [0] 1\<rparr>
              else k\<lparr>delay_samples := new_delay,
                     delay_line := deque_new (replicate (nat new_delay) 0) (nat new_delay)\<rparr>)"

section \<open>Sample synthesizer (run_ftmp_forever, lines 216-222)\<close>

definition bit_to_i16 :: "bool \<Rightarrow> int" where
  "bit_to_i16 b = (if b then 12000 else 0)"

text \<open>
  Lines 218-222: the right channel for the sample \<open>w_now\<close>, and the knobs with the delay
  line as the step leaves it.
\<close>

definition synth_right :: "knobs \<Rightarrow> int \<Rightarrow> py_error + (int \<times> knobs)" where
  "synth_right k w_now =
     (if delay_samples k \<le> 0 then Inr (w_now, k)
      else case deque_popleft (deque_append (delay_line k) w_now) of
             Inl e \<Rightarrow> Inl e
           | Inr (R, d) \<Rightarrow> Inr (R, k\<lparr>delay_line := d\<rparr>))"

text \<open>
  The right channel over a run of consecutive steps whose \<open>w_now\<close> values are given, with
  no key pressed in between: the outputs in order and the knobs at the end.
\<close>

fun synth_run :: "knobs \<Rightarrow> int list \<Rightarrow> py_error + (int list \<times> knobs)" where
  "synth_run k [] = Inr ([], k)"
| "synth_run k (w # ws) =
     (case synth_right k w of
        Inl e \<Rightarrow> Inl e
      | Inr (R, k') \<Rightarrow>
          (case synth_run k' ws of
             Inl e \<Rightarrow> Inl e
           | Inr (Rs, k'') \<Rightarrow> Inr (R # Rs, k'')))"

section \<open>Rule table and machine state (lines 15-26)\<close>

text \<open>
  The field \<open>write\<close> of the source is \<open>rule_write\<close> here (\<open>write\<close> is a keyword of
  Isabelle).
\<close>

record Rule =
  rule_write :: int
  move :: int
  next_pc :: int

text \<open>The dictionary \<open>program\<close>, keyed by \<open>(pc, read)\<close>.\<close>

type_synonym program = "int \<times> int \<rightharpoonup> Rule"

record MachineState =
  tape :: "int list"
  i :: int
  pc :: int
  cycle :: int

text \<open>
  Python list indexing: a negative index counts from the end, and an index outside
  \<open>[-len, len)\<close> raises IndexError. \<open>py_index\<close> is the position the index denotes.
\<close>

definition py_index :: "'a list \<Rightarrow> int \<Rightarrow> py_error + nat" where
  "py_index xs j =
     (let n = int (length xs);
          k = (if j < 0 then j + n else j)
      in if 0 \<le> k \<and> k < n then Inr (nat k) else Inl IndexError)"

section \<open>reset_machine (lines 77-83)\<close>

text \<open>
  \<open>[0] * N\<close> is the empty list for \<open>N \<le> 0\<close>; the assignment \<open>state.tape[N // 4] = 1\<close>
  then raises IndexError.
\<close>

definition reset_machine :: "MachineState \<Rightarrow> int \<Rightarrow> py_error + MachineState" where
  "reset_machine state N =
     (let t = replicate (nat N) 0
      in case py_index t (N div 4) of
           Inl e \<Rightarrow> Inl e
         | Inr k \<Rightarrow> Inr (state\<lparr>tape := t[k := 1], i := 0, pc := 1, cycle := 0\<rparr>))"

text \<open>Lines 160-161: the machine as the main loop first sees it.\<close>

definition initial_machine :: "int \<Rightarrow> py_error + MachineState" where
  "initial_machine N =
     reset_machine \<lparr>tape = replicate (nat N) 0, i = 0, pc = 1, cycle = 0\<rparr> N"

section \<open>One machine step with its sample (the loop body, lines 210-235)\<close>

text \<open>
  What one pass of the loop body computes besides the new state: the symbols, the sample
  pair \<open>(L, R)\<close> packed into the chunk, and the pixel \<open>(row, col)\<close> handed to
  \<open>draw_pixel\<close>.
\<close>

record step_locals =
  read_sym :: int
  write_sym :: int
  left_sample :: int
  right_sample :: int
  row :: int
  col :: int

text \<open>Line 233: the head after the move.\<close>

definition head_after :: "int \<Rightarrow> int \<Rightarrow> int \<Rightarrow> int" where
  "head_after tc mv N = (tc + mv) mod N"

text \<open>
  The body in the order of the source: read the tape (IndexError), look the rule up
  (KeyError), synthesize the sample, write the tape, compute the pixel row and the head
  (ZeroDivisionError when \<open>N = 0\<close>), advance \<open>pc\<close> and \<open>cycle\<close>.
\<close>

definition loop_body ::
  "int \<Rightarrow> program \<Rightarrow> MachineState \<times> knobs \<Rightarrow> py_error + (MachineState \<times> knobs \<times> step_locals)"
where
  "loop_body N program sk =
     (let state = fst sk; k = snd sk; tc = i state
      in case py_index (tape state) tc of
           Inl e \<Rightarrow> Inl e
         | Inr p \<Rightarrow>
             let rs = tape state ! p
             in case program (pc state, rs) of
                  None \<Rightarrow> Inl KeyError
                | Some rule \<Rightarrow>
                    let ws = rule_write rule;
                        lft = bit_to_i16 (rs = 1);
                        wn = bit_to_i16 (ws = 1)
                    in case synth_right k wn of
                         Inl e \<Rightarrow> Inl e
                       | Inr (rgt, k') \<Rightarrow>
                           if N = 0 then Inl ZeroDivisionError
                           else Inr (\<lparr>tape = (tape state)[p := ws],
                                      i = head_after tc (move rule) N,
                                      pc = next_pc rule,
                                      cycle = cycle state + 1\<rparr>,
                                     k',
                                     \<lparr>read_sym = rs, write_sym = ws,
                                      left_sample = lft, right_sample = rgt,
                                      row = (cycle state div N) mod N, col = tc\<rparr>))"

text \<open>\<open>n\<close> passes of the loop body, stopping at the first exception.\<close>

fun run_steps ::
  "nat \<Rightarrow> int \<Rightarrow> program \<Rightarrow> MachineState \<times> knobs \<Rightarrow> py_error + (MachineState \<times> knobs)"
where
  "run_steps 0 N program sk = Inr sk"
| "run_steps (Suc n) N program sk =
     (case loop_body N program sk of
        Inl e \<Rightarrow> Inl e
      | Inr (state', k', out) \<Rightarrow> run_steps n N program (state', k'))"

text \<open>The tape positions whose value differs between two tapes of the same length.\<close>

definition changed_cells :: "int list \<Rightarrow> int list \<Rightarrow> nat list" where
  "changed_cells old new = filter (\<lambda>j. old ! j \<noteq> new ! j) [0..<length old]"

section \<open>Playback driver (lines 166-168 and 243-257)\<close>

datatype chan_call = ChanPlay | ChanQueue

record driver =
  started_audio :: bool
  prime_count :: int

definition PRIME_CHUNKS :: int where
  "PRIME_CHUNKS = 3"

definition driver_init :: driver where
  "driver_init = \<lparr>started_audio = False, prime_count = 0\<rparr>"

text \<open>
  What the driver does with one sealed packet. \<open>busy\<close> is what \<open>chan.get_busy()\<close>
  answers at that moment; the source asks only once \<open>started_audio\<close> is set.
\<close>

definition dispatch :: "driver \<Rightarrow> bool \<Rightarrow> chan_call \<times> driver" where
  "dispatch d busy =
     (if \<not> started_audio d then
        (let call = (if prime_count d = 0 then ChanPlay else ChanQueue);
             n = prime_count d + 1
         in (call, \<lparr>started_audio = (if n \<ge> PRIME_CHUNKS then True else started_audio d),
                    prime_count = n\<rparr>))
      else (if busy then ChanQueue else ChanPlay, d))"

text \<open>A run of sealed packets, each with the device's answer at its moment.\<close>

fun dispatch_all :: "driver \<Rightarrow> bool list \<Rightarrow> chan_call list \<times> driver" where
  "dispatch_all d [] = ([], d)"
| "dispatch_all d (busy # rest) =
     (case dispatch d busy of
        (call, d') \<Rightarrow>
          (case dispatch_all d' rest of
             (calls, d'') \<Rightarrow> (call # calls, d'')))"

section \<open>Python strings (str.strip, str.upper)\<close>

text \<open>
  A Python string is a sequence of Unicode code points, here a list of integers;
  \<open>py_str\<close> gives the string of an ASCII literal. The tables of this section and the
  next are those of CPython 3.11 (Unicode 14.0.0).
\<close>

type_synonym pystr = "int list"

definition py_str :: "string \<Rightarrow> pystr" where
  "py_str s = map of_char s"

text \<open>
  \<open>str.strip()\<close> removes the leading and trailing whitespace: the characters 9 to 13,
  28 to 32, U+0085, U+00A0, U+1680, U+2000 to U+200A, U+2028, U+2029, U+202F, U+205F and
  U+3000.
\<close>

definition is_space :: "int \<Rightarrow> bool" where
  "is_space c \<longleftrightarrow>
     (9 \<le> c \<and> c \<le> 13) \<or> (28 \<le> c \<and> c \<le> 32) \<or> c = 133 \<or> c = 160 \<or> c = 5760
     \<or> (8192 \<le> c \<and> c \<le> 8202) \<or> c = 8232 \<or> c = 8233 \<or> c = 8239 \<or> c = 8287
     \<or> c = 12288"

definition strip :: "pystr \<Rightarrow> pystr" where
  "strip s = rev (dropWhile is_space (rev (dropWhile is_space s)))"

text \<open>
  \<open>str.upper()\<close> replaces every character by its full uppercase mapping, one to three
  characters, whatever its neighbours are. \<open>upper_special\<close> lists the characters whose
  mapping has more than one character. \<open>upper_runs\<close> lists the others that change, in
  runs \<open>(lo, hi, stride, ulo)\<close>: the characters lo, lo + stride, ... up to hi map to
  ulo, ulo + stride, ... in this order. Every other character is left as it is.
\<close>

definition upper_special :: "(int \<times> int list) list" where
  "upper_special =
    [
     (223, [83, 83]), (329, [700, 78]), (496, [74, 780]), (912, [921, 776, 769]),
     (944, [933, 776, 769]), (1415, [1333, 1362]), (7830, [72, 817]), (7831, [84, 776]),
     (7832, [87, 778]), (7833, [89, 778]), (7834, [65, 702]), (8016, [933, 787]),
     (8018, [933, 787, 768]), (8020, [933, 787, 769]), (8022, [933, 787, 834]),
     (8064, [7944, 921]), (8065, [7945, 921]), (8066, [7946, 921]), (8067, [7947, 921]),
     (8068, [7948, 921]), (8069, [7949, 921]), (8070, [7950, 921]), (8071, [7951, 921]),
     (8072, [7944, 921]), (8073, [7945, 921]), (8074, [7946, 921]), (8075, [7947, 921]),
     (8076, [7948, 921]), (8077, [7949, 921]), (8078, [7950, 921]), (8079, [7951, 921]),
     (8080, [7976, 921]), (8081, [7977, 921]), (8082, [7978, 921]), (8083, [7979, 921]),
     (8084, [7980, 921]), (8085, [7981, 921]), (8086, [7982, 921]), (8087, [7983, 921]),
     (8088, [7976, 921]), (8089, [7977, 921]), (8090, [7978, 921]), (8091, [7979, 921]),
     (8092, [7980, 921]), (8093, [7981, 921]), (8094, [7982, 921]), (8095, [7983, 921]),
     (8096, [8040, 921]), (8097, [8041, 921]), (8098, [8042, 921]), (8099, [8043, 921]),
     (8100, [8044, 921]), (8101, [8045, 921]), (8102, [8046, 921]), (8103, [8047, 921]),
     (8104, [8040, 921]), (8105, [8041, 921]), (8106, [8042, 921]), (8107, [8043, 921]),
     (8108, [8044, 921]), (8109, [8045, 921]), (8110, [8046, 921]), (8111, [8047, 921]),
     (8114, [8122, 921]), (8115, [913, 921]), (8116, [902, 921]), (8118, [913, 834]),
     (8119, [913, 834, 921]), (8124, [913, 921]), (8130, [8138, 921]), (8131, [919, 921]),
     (8132, [905, 921]), (8134, [919, 834]), (8135, [919, 834, 921]), (8140, [919, 921]),
     (8146, [921, 776, 768]), (8147, [921, 776, 769]), (8150, [921, 834]),
     (8151, [921, 776, 834]), (8162, [933, 776, 768]), (8163, [933, 776, 769]),
     (8164, [929, 787]), (8166, [933, 834]), (8167, [933, 776, 834]), (8178, [8186, 921]),
     (8179, [937, 921]), (8180, [911, 921]), (8182, [937, 834]), (8183, [937, 834, 921]),
     (8188, [937, 921]), (64256, [70, 70]), (64257, [70, 73]), (64258, [70, 76]),
     (64259, [70, 70, 73]), (64260, [70, 70, 76]), (64261, [83, 84]), (64262, [83, 84]),
     (64275, [1348, 1350]), (64276, [1348, 1333]), (64277, [1348, 1339]),
     (64278, [1358, 1350]), (64279, [1348, 1341])
    ]"

definition upper_runs :: "(int \<times> int \<times> int \<times> int) list" where
  "upper_runs =
    [
     (97, 122, 1, 65), (181, 181, 1, 924), (224, 246, 1, 192), (248, 254, 1, 216),
     (255, 255, 1, 376), (257, 303, 2, 256), (305, 305, 1, 73), (307, 311, 2, 306),
     (314, 328, 2, 313), (331, 375, 2, 330), (378, 382, 2, 377), (383, 383, 1, 83),
     (384, 384, 1, 579), (387, 389, 2, 386), (392, 392, 1, 391), (396, 396, 1, 395),
     (402, 402, 1, 401), (405, 405, 1, 502), (409, 409, 1, 408), (410, 410, 1, 573),
     (414, 414, 1, 544), (417, 421, 2, 416), (424, 424, 1, 423), (429, 429, 1, 428),
     (432, 432, 1, 431), (436, 438, 2, 435), (441, 441, 1, 440), (445, 445, 1, 444),
     (447, 447, 1, 503), (453, 453, 1, 452), (454, 454, 1, 452), (456, 456, 1, 455),
     (457, 457, 1, 455), (459, 459, 1, 458), (460, 460, 1, 458), (462, 476, 2, 461),
     (477, 477, 1, 398), (479, 495, 2, 478), (498, 498, 1, 497), (499, 499, 1, 497),
     (501, 501, 1, 500), (505, 543, 2, 504), (547, 563, 2, 546), (572, 572, 1, 571),
     (575, 576, 1, 11390), (578, 578, 1, 577), (583, 591, 2, 582), (592, 592, 1, 11375),
     (593, 593, 1, 11373), (594, 594, 1, 11376), (595, 595, 1, 385), (596, 596, 1, 390),
     (598, 599, 1, 393), (601, 601, 1, 399), (603, 603, 1, 400), (604, 604, 1, 42923),
     (608, 608, 1, 403), (609, 609, 1, 42924), (611, 611, 1, 404), (613, 613, 1, 42893),
     (614, 614, 1, 42922), (616, 616, 1, 407), (617, 617, 1, 406), (618, 618, 1, 42926),
     (619, 619, 1, 11362), (620, 620, 1, 42925), (623, 623, 1, 412), (625, 625, 1, 11374),
     (626, 626, 1, 413), (629, 629, 1, 415), (637, 637, 1, 11364), (640, 640, 1, 422),
     (642, 642, 1, 42949), (643, 643, 1, 425), (647, 647, 1, 42929), (648, 648, 1, 430),
     (649, 649, 1, 580), (650, 651, 1, 433), (652, 652, 1, 581), (658, 658, 1, 439),
     (669, 669, 1, 42930), (670, 670, 1, 42928), (837, 837, 1, 921), (881, 883, 2, 880),
     (887, 887, 1, 886), (891, 893, 1, 1021), (940, 940, 1, 902), (941, 943, 1, 904),
     (945, 961, 1, 913), (962, 962, 1, 931), (963, 971, 1, 931), (972, 972, 1, 908),
     (973, 974, 1, 910), (976, 976, 1, 914), (977, 977, 1, 920), (981, 981, 1, 934),
     (982, 982, 1, 928), (983, 983, 1, 975), (985, 1007, 2, 984), (1008, 1008, 1, 922),
     (1009, 1009, 1, 929), (1010, 1010, 1, 1017), (1011, 1011, 1, 895), (1013, 1013, 1, 917),
     (1016, 1016, 1, 1015), (1019, 1019, 1, 1018), (1072, 1103, 1, 1040),
     (1104, 1119, 1, 1024), (1121, 1153, 2, 1120), (1163, 1215, 2, 1162),
     (1218, 1230, 2, 1217), (1231, 1231, 1, 1216), (1233, 1327, 2, 1232),
     (1377, 1414, 1, 1329), (4304, 4346, 1, 7312), (4349, 4351, 1, 7357),
     (5112, 5117, 1, 5104), (7296, 7296, 1, 1042), (7297, 7297, 1, 1044),
     (7298, 7298, 1, 1054), (7299, 7300, 1, 1057), (7301, 7301, 1, 1058),
     (7302, 7302, 1, 1066), (7303, 7303, 1, 1122), (7304, 7304, 1, 42570),
     (7545, 7545, 1, 42877), (7549, 7549, 1, 11363), (7566, 7566, 1, 42950),
     (7681, 7829, 2, 7680), (7835, 7835, 1, 7776), (7841, 7935, 2, 7840),
     (7936, 7943, 1, 7944), (7952, 7957, 1, 7960), (7968, 7975, 1, 7976),
     (7984, 7991, 1, 7992), (8000, 8005, 1, 8008), (8017, 8023, 2, 8025),
     (8032, 8039, 1, 8040), (8048, 8049, 1, 8122), (8050, 8053, 1, 8136),
     (8054, 8055, 1, 8154), (8056, 8057, 1, 8184), (8058, 8059, 1, 8170),
     (8060, 8061, 1, 8186), (8112, 8113, 1, 8120), (8126, 8126, 1, 921), (8144, 8145, 1, 8152),
     (8160, 8161, 1, 8168), (8165, 8165, 1, 8172), (8526, 8526, 1, 8498),
     (8560, 8575, 1, 8544), (8580, 8580, 1, 8579), (9424, 9449, 1, 9398),
     (11312, 11359, 1, 11264), (11361, 11361, 1, 11360), (11365, 11365, 1, 570),
     (11366, 11366, 1, 574), (11368, 11372, 2, 11367), (11379, 11379, 1, 11378),
     (11382, 11382, 1, 11381), (11393, 11491, 2, 11392), (11500, 11502, 2, 11499),
     (11507, 11507, 1, 11506), (11520, 11557, 1, 4256), (11559, 11559, 1, 4295),
     (11565, 11565, 1, 4301), (42561, 42605, 2, 42560), (42625, 42651, 2, 42624),
     (42787, 42799, 2, 42786), (42803, 42863, 2, 42802), (42874, 42876, 2, 42873),
     (42879, 42887, 2, 42878), (42892, 42892, 1, 42891), (42897, 42899, 2, 42896),
     (42900, 42900, 1, 42948), (42903, 42921, 2, 42902), (42933, 42947, 2, 42932),
     (42952, 42954, 2, 42951), (42961, 42961, 1, 42960), (42967, 42969, 2, 42966),
     (42998, 42998, 1, 42997), (43859, 43859, 1, 42931), (43888, 43967, 1, 5024),
     (65345, 65370, 1, 65313), (66600, 66639, 1, 66560), (66776, 66811, 1, 66736),
     (66967, 67003, 2, 66928), (66968, 66976, 2, 66929), (66980, 66992, 2, 66941),
     (66996, 67000, 2, 66957), (67004, 67004, 1, 66965), (68800, 68850, 1, 68736),
     (71872, 71903, 1, 71840), (93792, 93823, 1, 93760), (125218, 125251, 1, 125184)
    ]"

definition upper_char :: "int \<Rightarrow> int list" where
  "upper_char c =
     (case map_of upper_special c of
        Some u \<Rightarrow> u
      | None \<Rightarrow>
          (case find (\<lambda>(lo, hi, stride, ulo). lo \<le> c \<and> c \<le> hi \<and> (c - lo) mod stride = 0)
                  upper_runs of
             Some (lo, hi, stride, ulo) \<Rightarrow> [ulo + (c - lo)]
           | None \<Rightarrow> [c]))"

definition upper :: "pystr \<Rightarrow> pystr" where
  "upper s = concat (map upper_char s)"

section \<open>Integer literals (int)\<close>

text \<open>
  \<open>int(x)\<close> for a string \<open>x\<close>. A string with a character outside ASCII is first
  rewritten: characters below 127 stay, whitespace becomes a space, a decimal digit of
  any script becomes the ASCII digit of its value, and at the first other character the
  string is cut and ends in a question mark. \<open>digit_zeros\<close> lists the zero of every run
  of ten decimal digits.
\<close>

definition digit_zeros :: "int list" where
  "digit_zeros =
    [
     48, 1632, 1776, 1984, 2406, 2534, 2662, 2790, 2918, 3046, 3174, 3302, 3430, 3558, 3664,
     3792, 3872, 4160, 4240, 6112, 6160, 6470, 6608, 6784, 6800, 6992, 7088, 7232, 7248, 42528,
     43216, 43264, 43472, 43504, 43600, 44016, 65296, 66720, 68912, 69734, 69872, 69942, 70096,
     70384, 70736, 70864, 71248, 71360, 71472, 71904, 72016, 72784, 73040, 73120, 92768, 92864,
     93008, 120782, 120792, 120802, 120812, 120822, 123200, 123632, 125264, 130032
    ]"

definition to_decimal :: "int \<Rightarrow> int option" where
  "to_decimal c = map_option (\<lambda>z. c - z) (find (\<lambda>z. z \<le> c \<and> c < z + 10) digit_zeros)"

fun to_ascii :: "pystr \<Rightarrow> pystr" where
  "to_ascii [] = []"
| "to_ascii (c # cs) =
     (if c < 127 then c # to_ascii cs
      else if is_space c then 32 # to_ascii cs
      else (case to_decimal c of
              Some d \<Rightarrow> (48 + d) # to_ascii cs
            | None \<Rightarrow> [63]))"

text \<open>
  The literal itself, in ASCII: optional whitespace (only the characters 9 to 13 and the
  space here) around an optional sign and a non-empty run of decimal digits, in which
  single underscores may stand between digits. A literal of more than
  \<open>max_str_digits\<close> digits is refused. Anything else raises ValueError as well;
  \<open>int(None)\<close> raises TypeError.
\<close>

definition max_str_digits :: nat where
  "max_str_digits = 4300"

definition is_int_space :: "int \<Rightarrow> bool" where
  "is_int_space c \<longleftrightarrow> (9 \<le> c \<and> c \<le> 13) \<or> c = 32"

definition int_strip :: "pystr \<Rightarrow> pystr" where
  "int_strip s = rev (dropWhile is_int_space (rev (dropWhile is_int_space s)))"

definition digit_of :: "int \<Rightarrow> int option" where
  "digit_of c = (if 48 \<le> c \<and> c \<le> 57 then Some (c - 48) else None)"

fun parse_digits :: "int \<Rightarrow> pystr \<Rightarrow> int option" where
  "parse_digits acc [] = Some acc"
| "parse_digits acc [c] =
     (case digit_of c of None \<Rightarrow> None | Some v \<Rightarrow> Some (10 * acc + v))"
| "parse_digits acc (c # d # ds) =
     (if c = 95 then
        (case digit_of d of None \<Rightarrow> None | Some v \<Rightarrow> parse_digits (10 * acc + v) ds)
      else
        (case digit_of c of None \<Rightarrow> None | Some v \<Rightarrow> parse_digits (10 * acc + v) (d # ds)))"

definition parse_nat :: "pystr \<Rightarrow> int option" where
  "parse_nat s =
     (if length (filter (\<lambda>c. c \<noteq> 95) s) > max_str_digits then None
      else case s of
             [] \<Rightarrow> None
           | c # cs \<Rightarrow> (case digit_of c of None \<Rightarrow> None | Some v \<Rightarrow> parse_digits v cs))"

definition py_int :: "pystr option \<Rightarrow> py_error + int" where
  "py_int x =
     (case x of
        None \<Rightarrow> Inl TypeError
      | Some s \<Rightarrow>
          (let t = int_strip (if \<forall>c \<in> set s. c < 128 then s else to_ascii s);
               r = (case t of
                      [] \<Rightarrow> None
                    | c # cs \<Rightarrow>
                        if c = 45 then map_option uminus (parse_nat cs)
                        else if c = 43 then parse_nat cs
                        else parse_nat t)
           in case r of None \<Rightarrow> Inl ValueError | Some v \<Rightarrow> Inr v))"

section \<open>load_program (lines 41-75)\<close>

text \<open>
  The file system and the csv module are outside the program, so the source of the rules
  is what they hand to load_program: no file at the path; a path that exists but whose
  opening or reading raises an exception before any row is refused (OSError for a
  directory or a file that may not be read, ValueError for bytes that are not text, as
  UnicodeDecodeError is a ValueError); or the column names of the header
  (\<open>rdr.fieldnames or []\<close>) with the rows as csv.DictReader yields them, each a
  dictionary from column name to cell. A cell of a row that is shorter than the header is
  None.
\<close>

datatype csv_source =
    NoFile
  | Unreadable py_error
  | Csv "pystr list" "(pystr \<rightharpoonup> pystr) list"

definition required :: "pystr set" where
  "required = {py_str ''pc'', py_str ''read'', py_str ''write'', py_str ''move'',
               py_str ''next_pc''}"

text \<open>Line 61: the displacement of a move token, \<open>None\<close> for any other token.\<close>

definition move_of :: "pystr \<Rightarrow> int option" where
  "move_of mv =
     (if mv = py_str ''L'' then Some (- 1)
      else if mv = py_str ''R'' then Some 1
      else if mv = py_str ''S'' then Some 0
      else None)"

text \<open>
  Lines 55-65, one row: the key \<open>(pc, read)\<close> and the rule, or the first exception in
  the order of the source. \<open>row["move"].strip()\<close> on None raises AttributeError.
\<close>

definition parse_row :: "(pystr \<rightharpoonup> pystr) \<Rightarrow> py_error + ((int \<times> int) \<times> Rule)" where
  "parse_row r =
     (case py_int (r (py_str ''pc'')) of
        Inl e \<Rightarrow> Inl e
      | Inr pc_v \<Rightarrow>
     (case py_int (r (py_str ''read'')) of
        Inl e \<Rightarrow> Inl e
      | Inr read_v \<Rightarrow>
     (case py_int (r (py_str ''write'')) of
        Inl e \<Rightarrow> Inl e
      | Inr write_v \<Rightarrow>
     (case r (py_str ''move'') of
        None \<Rightarrow> Inl AttributeError
      | Some m \<Rightarrow>
     (let mv = upper (strip m)
      in case py_int (r (py_str ''next_pc'')) of
           Inl e \<Rightarrow> Inl e
         | Inr next_v \<Rightarrow>
     (case move_of mv of
        None \<Rightarrow> Inl ValueError
      | Some move_v \<Rightarrow>
          if write_v \<notin> {0, 1, 2} then Inl ValueError
          else Inr ((pc_v, read_v),
                    \<lparr>rule_write = write_v, move = move_v, next_pc = next_v\<rparr>)))))))"

text \<open>Lines 54-68: the loop over the rows, filling \<open>program\<close> and the set \<open>pcs\<close>.\<close>

fun load_rows ::
  "(pystr \<rightharpoonup> pystr) list \<Rightarrow> program \<Rightarrow> int set \<Rightarrow> py_error + (program \<times> int set)"
where
  "load_rows [] program pcs = Inr (program, pcs)"
| "load_rows (r # rs) program pcs =
     (case parse_row r of
        Inl e \<Rightarrow> Inl e
      | Inr (key, rule) \<Rightarrow> load_rows rs (program(key \<mapsto> rule)) (insert (fst key) pcs))"

text \<open>Lines 70-73: every state in \<open>pcs\<close> has a rule for read 0 and for read 1.\<close>

definition check_total :: "program \<Rightarrow> int set \<Rightarrow> py_error + program" where
  "check_total program pcs =
     (if \<forall>p \<in> pcs. \<forall>rd \<in> {0, 1}. program (p, rd) \<noteq> None then Inr program
      else Inl ValueError)"

definition load_program :: "csv_source \<Rightarrow> py_error + program" where
  "load_program src =
     (case src of
        NoFile \<Rightarrow> Inl FileNotFoundError
      | Unreadable e \<Rightarrow> Inl e
      | Csv fieldnames rows \<Rightarrow>
          if \<not> required \<subseteq> set fieldnames then Inl ValueError
          else (case load_rows rows Map.empty {} of
                  Inl e \<Rightarrow> Inl e
                | Inr (program, pcs) \<Rightarrow> check_total program pcs))"

text \<open>
  run_ftmp_forever up to the first \<open>n\<close> machine steps (lines 91, 160-161 and the loop
  body), with no key pressed: load the rules, reset the machine, step.
\<close>

definition run_from_start :: "nat \<Rightarrow> int \<Rightarrow> csv_source \<Rightarrow> py_error + (MachineState \<times> knobs)" where
  "run_from_start n N src =
     (case load_program src of
        Inl e \<Rightarrow> Inl e
      | Inr program \<Rightarrow>
          (case initial_machine N of
             Inl e \<Rightarrow> Inl e
           | Inr state \<Rightarrow> run_steps n N program (state, knobs_init)))"

section \<open>Load-time validation, stated on the rows\<close>

text \<open>
  The conditions under which a row is refused, in words: one of the cells \<open>pc\<close>, \<open>read\<close>,
  \<open>write\<close>, \<open>next_pc\<close> is missing or is not an integer literal that \<open>int\<close> accepts; the
  cell \<open>move\<close> is missing or, stripped and upper-cased, is not one of L, R, S; or the
  value of \<open>write\<close> is not 0, 1 or 2.
\<close>

definition row_rejected :: "(pystr \<rightharpoonup> pystr) \<Rightarrow> bool" where
  "row_rejected r \<longleftrightarrow>
     isl (py_int (r (py_str ''pc''))) \<or> isl (py_int (r (py_str ''read'')))
     \<or> isl (py_int (r (py_str ''write''))) \<or> isl (py_int (r (py_str ''next_pc'')))
     \<or> (case r (py_str ''move'') of
           None \<Rightarrow> True
         | Some m \<Rightarrow> upper (strip m) \<noteq> py_str ''L'' \<and> upper (strip m) \<noteq> py_str ''R''
                     \<and> upper (strip m) \<noteq> py_str ''S'')
     \<or> (case py_int (r (py_str ''write'')) of
           Inl e \<Rightarrow> False
         | Inr w \<Rightarrow> w \<noteq> 0 \<and> w \<noteq> 1 \<and> w \<noteq> 2)"

text \<open>Some row gives the state \<open>p\<close> a rule for the read symbol \<open>rd\<close>.\<close>

definition declares :: "(pystr \<rightharpoonup> pystr) list \<Rightarrow> int \<Rightarrow> int \<Rightarrow> bool" where
  "declares rows p rd \<longleftrightarrow>
     list_ex (\<lambda>r. py_int (r (py_str ''pc'')) = Inr p \<and> py_int (r (py_str ''read'')) = Inr rd) rows"

text \<open>Some state that a row names lacks its rule for read 0 or its rule for read 1.\<close>

definition not_total :: "(pystr \<rightharpoonup> pystr) list \<Rightarrow> bool" where
  "not_total rows \<longleftrightarrow>
     list_ex (\<lambda>r. case py_int (r (py_str ''pc'')) of
                    Inl e \<Rightarrow> False
                  | Inr p \<Rightarrow> \<not> declares rows p 0 \<or> \<not> declares rows p 1) rows"

section \<open>Rule files used as concrete inputs\<close>

text \<open>
  The header line \<open>pc,read,write,move,next_pc\<close>, and the dictionary csv.DictReader
  yields under it for a line of five cells.
\<close>

definition header :: "pystr list" where
  "header = [py_str ''pc'', py_str ''read'', py_str ''write'', py_str ''move'',
             py_str ''next_pc'']"

definition csv_cells :: "pystr \<Rightarrow> pystr \<Rightarrow> pystr \<Rightarrow> pystr \<Rightarrow> pystr \<Rightarrow> (pystr \<rightharpoonup> pystr)" where
  "csv_cells c1 c2 c3 c4 c5 =
     [py_str ''pc'' \<mapsto> c1, py_str ''read'' \<mapsto> c2, py_str ''write'' \<mapsto> c3,
      py_str ''move'' \<mapsto> c4, py_str ''next_pc'' \<mapsto> c5]"

definition csv_row :: "string \<Rightarrow> string \<Rightarrow> string \<Rightarrow> string \<Rightarrow> string \<Rightarrow> (pystr \<rightharpoonup> pystr)" where
  "csv_row c1 c2 c3 c4 c5 =
     csv_cells (py_str c1) (py_str c2) (py_str c3) (py_str c4) (py_str c5)"

section \<open>Tables that are closed under their transitions\<close>

text \<open>
  A condition load_program does not check: the initial state 1 has both rules, and every
  rule writes 0 or 1 and leads to a state that has both rules.
\<close>

definition closed_table :: "program \<Rightarrow> bool" where
  "closed_table P \<longleftrightarrow>
     P (1, 0) \<noteq> None \<and> P (1, 1) \<noteq> None
     \<and> (\<forall>key rule. P key = Some rule \<longrightarrow>
           (rule_write rule = 0 \<or> rule_write rule = 1)
           \<and> P (next_pc rule, 0) \<noteq> None \<and> P (next_pc rule, 1) \<noteq> None)"

text \<open>
  What the steps keep true of the machine and the knobs under such a table: the tape has
  N cells, all 0 or 1, the head is on the tape, the current state has both rules, and the
  delay line can hold at least one item.
\<close>

definition step_inv :: "int \<Rightarrow> program \<Rightarrow> MachineState \<times> knobs \<Rightarrow> bool" where
  "step_inv N P sk \<longleftrightarrow>
     int (length (tape (fst sk))) = N
     \<and> 0 \<le> i (fst sk) \<and> i (fst sk) < N
     \<and> set (tape (fst sk)) \<subseteq> {0, 1}
     \<and> P (pc (fst sk), 0) \<noteq> None \<and> P (pc (fst sk), 1) \<noteq> None
     \<and> 0 < maxlen (delay_line (snd sk))"

section \<open>Step scheduler: proofs\<close>

lemma sched_frames_Suc:
  "sched_frames (Suc n) b r f a =
     (fst (sched_frame b r f a) # fst (sched_frames n b r f (snd (sched_frame b r f a))),
      snd (sched_frames n b r f (snd (sched_frame b r f a))))"
  by (simp split: prod.splits)

lemma sched_frames_length:
  "length (fst (sched_frames n b r f a)) = n"
  by (induction n arbitrary: a) (simp_all add: sched_frames_Suc del: sched_frames.simps(2))

lemma sched_frames_balance:
  assumes "0 \<le> r" "r < f" "0 \<le> a" "a < f"
  shows "f * sum_list (fst (sched_frames n b r f a)) + snd (sched_frames n b r f a)
           = f * (int n * b) + a + int n * r
         \<and> 0 \<le> snd (sched_frames n b r f a) \<and> snd (sched_frames n b r f a) < f"
  using assms
proof (induction n arbitrary: a)
  case 0
  then show ?case by simp
next
  case (Suc n)
  show ?case
  proof (cases "a + r \<ge> f")
    case True
    have step: "sched_frame b r f a = (b + 1, a + r - f)"
      using True by (simp add: sched_frame_def)
    have rng: "0 \<le> a + r - f" "a + r - f < f"
      using True Suc.prems by linarith+
    from Suc.IH [OF Suc.prems(1) Suc.prems(2) rng]
    show ?thesis
      by (simp add: sched_frames_Suc step algebra_simps del: sched_frames.simps(2))
  next
    case False
    have step: "sched_frame b r f a = (b, a + r)"
      using False by (simp add: sched_frame_def)
    have rng: "0 \<le> a + r" "a + r < f"
      using False Suc.prems by linarith+
    from Suc.IH [OF Suc.prems(1) Suc.prems(2) rng]
    show ?thesis
      by (simp add: sched_frames_Suc step algebra_simps del: sched_frames.simps(2))
  qed
qed

lemma sched_frames_values:
  "s \<in> set (fst (sched_frames n b r f a)) \<Longrightarrow> s = b \<or> s = b + 1"
  by (induction n arbitrary: a)
     (auto simp: sched_frames_Suc sched_frame_def Let_def simp del: sched_frames.simps(2)
           split: if_splits)

lemma sched_frames_floor_noop:
  assumes "1 \<le> b"
  shows "map steps_run (fst (sched_frames n b r f a)) = fst (sched_frames n b r f a)"
proof -
  have "steps_run s = s" if "s \<in> set (fst (sched_frames n b r f a))" for s
    using sched_frames_values [OF that] assms by (auto simp: steps_run_def)
  then show ?thesis by (simp add: map_idI)
qed

lemma sched_frames_floor_all_one:
  "map steps_run (fst (sched_frames n 0 r f a)) = replicate n 1"
proof -
  have one: "steps_run s = 1" if "s \<in> set (fst (sched_frames n 0 r f a))" for s
    using sched_frames_values [OF that] by (auto simp: steps_run_def)
  have "map steps_run (fst (sched_frames n 0 r f a))
          = map (\<lambda>_. 1) (fst (sched_frames n 0 r f a))"
    using one by (simp cong: map_cong)
  also have "\<dots> = replicate (length (fst (sched_frames n 0 r f a))) 1"
    by (simp add: map_replicate_const)
  finally show ?thesis by (simp add: sched_frames_length)
qed

lemma sched_cycle_sum:
  assumes "0 < fps" "0 \<le> acc" "acc < fps"
  shows "sum_list (fst (sched_frames (nat fps) (audio_hz div fps) (audio_hz mod fps) fps acc))
           = audio_hz
         \<and> snd (sched_frames (nat fps) (audio_hz div fps) (audio_hz mod fps) fps acc) = acc"
proof -
  let ?b = "audio_hz div fps" and ?r = "audio_hz mod fps"
  let ?S = "sum_list (fst (sched_frames (nat fps) ?b ?r fps acc))"
  let ?a = "snd (sched_frames (nat fps) ?b ?r fps acc)"
  have r: "0 \<le> ?r" "?r < fps" using assms(1) by simp_all
  from sched_frames_balance [OF r assms(2,3), of "nat fps" ?b]
  have bal: "fps * ?S + ?a = fps * (fps * ?b) + acc + fps * ?r"
    and lo: "0 \<le> ?a" and hi: "?a < fps"
    using assms(1) by simp_all
  have "fps * ?S - (fps * (fps * ?b) + fps * ?r) = acc - ?a"
    using bal by linarith
  then have prod: "fps * (?S - (fps * ?b + ?r)) = acc - ?a"
    by (simp only: right_diff_distrib distrib_left)
  then have dvd: "fps dvd (acc - ?a)"
    by (metis dvd_triv_left)
  have "\<bar>acc - ?a\<bar> < fps" using assms lo hi by linarith
  with dvd have eq: "acc - ?a = 0"
    using zdvd_not_zless [of "\<bar>acc - ?a\<bar>" fps] by fastforce
  with prod assms(1)
  have "?S - (fps * ?b + ?r) = 0" by simp
  then have "?S = fps * ?b + ?r" by simp
  then show ?thesis using eq by simp
qed

section \<open>Claims on the step scheduler\<close>

text \<open>
  C1, as stated, read with the floor of line 209 applied to every frame: the numbers of
  steps the frames run, \<open>max(1, steps)\<close>, summed over \<open>frame_rate\<close> consecutive frames,
  would be \<open>audio_sample_rate\<close>. With audio_hz = 1 and fps = 2 the two frames compute
  steps 0 and 1, run 1 and 1 steps, and the sum is 2, not 1.
\<close>

theorem C1_floored_sum_counterexample:
  "sched_init 1 2 = Inr (0, 1, 0)
   \<and> fst (sched_frames 2 0 1 2 0) = [0, 1]
   \<and> sum_list (map steps_run (fst (sched_frames 2 0 1 2 0))) = 2"
  by (simp add: sched_init_def sched_frame_def steps_run_def numeral_2_eq_2)

text \<open>
  C1, amended: for every positive frame rate, every audio rate and every starting
  accumulator in [0, frame rate), the values of \<open>steps\<close> over \<open>frame rate\<close> consecutive
  frames sum to exactly the audio rate and the accumulator is back at its starting value.
  The numbers of steps really run, \<open>max(1, steps)\<close>, sum to the audio rate as well when
  the audio rate is at least the frame rate; for an audio rate in [0, frame rate) every
  frame runs one step and the sum is the frame rate.
\<close>

theorem C1_rate_exact:
  assumes "0 < fps" "0 \<le> acc" "acc < fps"
  shows "sum_list (fst (sched_frames (nat fps) (audio_hz div fps) (audio_hz mod fps) fps acc))
           = audio_hz
         \<and> snd (sched_frames (nat fps) (audio_hz div fps) (audio_hz mod fps) fps acc) = acc
         \<and> (fps \<le> audio_hz \<longrightarrow>
              sum_list (map steps_run
                (fst (sched_frames (nat fps) (audio_hz div fps) (audio_hz mod fps) fps acc)))
                = audio_hz)
         \<and> (0 \<le> audio_hz \<and> audio_hz < fps \<longrightarrow>
              sum_list (map steps_run
                (fst (sched_frames (nat fps) (audio_hz div fps) (audio_hz mod fps) fps acc)))
                = fps)"
proof -
  note cyc = sched_cycle_sum [OF assms, of audio_hz]
  have big: "1 \<le> audio_hz div fps" if "fps \<le> audio_hz"
  proof -
    have "0 < audio_hz div fps"
      using that assms(1) by (simp add: pos_imp_zdiv_pos_iff)
    then show ?thesis by linarith
  qed
  have c3: "fps \<le> audio_hz \<longrightarrow>
              sum_list (map steps_run
                (fst (sched_frames (nat fps) (audio_hz div fps) (audio_hz mod fps) fps acc)))
                = audio_hz"
  proof
    assume "fps \<le> audio_hz"
    from sched_frames_floor_noop [OF big [OF this]] cyc
    show "sum_list (map steps_run
                (fst (sched_frames (nat fps) (audio_hz div fps) (audio_hz mod fps) fps acc)))
                = audio_hz"
      by simp
  qed
  have c4: "0 \<le> audio_hz \<and> audio_hz < fps \<longrightarrow>
              sum_list (map steps_run
                (fst (sched_frames (nat fps) (audio_hz div fps) (audio_hz mod fps) fps acc)))
                = fps"
  proof
    assume "0 \<le> audio_hz \<and> audio_hz < fps"
    then have b0: "audio_hz div fps = 0" by simp
    show "sum_list (map steps_run
                (fst (sched_frames (nat fps) (audio_hz div fps) (audio_hz mod fps) fps acc)))
                = fps"
      unfolding b0 using assms(1)
      by (simp add: sched_frames_floor_all_one sum_list_replicate)
  qed
  from cyc c3 c4 show ?thesis by blast
qed

theorem C1_rate_exact_witness:
  "sum_list (fst (sched_frames (nat 3) (10 div 3) (10 mod 3) 3 2)) = (10::int)
   \<and> snd (sched_frames (nat 3) (10 div 3) (10 mod 3) 3 2) = 2
   \<and> sum_list (map steps_run (fst (sched_frames (nat 3) (10 div 3) (10 mod 3) 3 2))) = 10"
  using C1_rate_exact [of 3 2 10] by simp

section \<open>Delay line: proofs\<close>

lemma synth_run_not_full:
  assumes "0 < delay_samples k" "length (items (delay_line k)) < maxlen (delay_line k)"
  shows "synth_run k ws =
           Inr (take (length ws) (items (delay_line k) @ ws),
                k\<lparr>delay_line := (delay_line k)
                     \<lparr>items := drop (length ws) (items (delay_line k) @ ws)\<rparr>\<rparr>)"
  using assms
proof (induction ws arbitrary: k)
  case Nil
  then show ?case by simp
next
  case (Cons w ws)
  obtain y ys where xs: "items (delay_line k) @ [w] = y # ys"
    by (cases "items (delay_line k) @ [w]") auto
  then have len: "length ys = length (items (delay_line k))"
    by (metis length_Cons length_append_singleton nat.inject)
  let ?k' = "k\<lparr>delay_line := (delay_line k)\<lparr>items := ys\<rparr>\<rparr>"
  have step: "synth_right k w = Inr (y, ?k')"
    using Cons.prems xs
    by (simp add: synth_right_def deque_append_def deque_popleft_def)
  have pre: "0 < delay_samples ?k'"
    "length (items (delay_line ?k')) < maxlen (delay_line ?k')"
    using Cons.prems len by simp_all
  have split: "items (delay_line k) @ w # ws = y # ys @ ws"
    using xs by (metis append_Cons append_assoc append_Nil)
  show ?case
    by (simp add: step Cons.IH [OF pre] split)
qed

lemma synth_run_full:
  assumes "0 < delay_samples k" "length (items (delay_line k)) = maxlen (delay_line k)"
    "0 < maxlen (delay_line k)"
  shows "synth_run k (w # ws) =
           Inr (take (Suc (length ws)) (tl (items (delay_line k)) @ w # ws),
                k\<lparr>delay_line := (delay_line k)
                     \<lparr>items := drop (Suc (length ws)) (tl (items (delay_line k)) @ w # ws)\<rparr>\<rparr>)"
proof -
  obtain y ys where xs: "tl (items (delay_line k)) @ [w] = y # ys"
    by (cases "tl (items (delay_line k)) @ [w]") auto
  then have len: "Suc (length ys) = length (items (delay_line k))"
    using assms(2,3)
    by (metis One_nat_def Suc_pred length_Cons length_append_singleton length_tl nat.inject)
  let ?k' = "k\<lparr>delay_line := (delay_line k)\<lparr>items := ys\<rparr>\<rparr>"
  have step: "synth_right k w = Inr (y, ?k')"
    using assms xs
    by (simp add: synth_right_def deque_append_def deque_popleft_def)
  have pre: "0 < delay_samples ?k'"
    "length (items (delay_line ?k')) < maxlen (delay_line ?k')"
    using assms len by simp_all
  have split: "tl (items (delay_line k)) @ w # ws = y # ys @ ws"
    using xs by (metis append_Cons append_assoc append_Nil)
  show ?thesis
    by (simp add: step synth_run_not_full [OF pre] split)
qed

lemma set_delay_fresh:
  assumes "clamp_delay A v \<noteq> delay_samples k" "0 < clamp_delay A v"
  shows "set_delay A v k =
           k\<lparr>delay_samples := clamp_delay A v,
             delay_line := \<lparr>items = replicate (nat (clamp_delay A v)) 0,
                             maxlen = nat (clamp_delay A v)\<rparr>\<rparr>"
  using assms by (simp add: set_delay_def Let_def deque_new_def)

section \<open>Claims on the delay line\<close>

text \<open>
  C2 (the delay is exactly D samples): the code delays by D - 1. The delay line starts
  with D zeros and \<open>maxlen = D\<close>, so the first \<open>append\<close> finds the deque full and discards
  one of the zeros before \<open>popleft\<close> removes another. With D = 5 (set_delay(5) at
  22000 Hz, from the initial knobs) and the pushes 1..7 the right channel is
  [0,0,0,0,1,2,3], where the claim has [0,0,0,0,0,1,2]: four leading zeros, not five.
\<close>

theorem C2_delay_short_by_one:
  "synth_run (set_delay 22000 5 knobs_init) [1, 2, 3, 4, 5, 6, 7] =
     Inr ([0, 0, 0, 0, 1, 2, 3],
          \<lparr>delay_samples = 5, delay_line = \<lparr>items = [4, 5, 6, 7], maxlen = 5\<rparr>\<rparr>)"
  by (simp add: set_delay_def clamp_delay_def MIN_DELAY_def knobs_init_def deque_new_def
      synth_right_def deque_append_def deque_popleft_def Let_def eval_nat_numeral)

text \<open>
  C3 (the delay line always holds exactly D items): right after \<open>set_delay(5)\<close> it holds
  5 zeros, and the first push-then-pop of the synthesizer leaves 4 items.
\<close>

theorem C3_length_drops_to_D_minus_1:
  "items (delay_line (set_delay 22000 5 knobs_init)) = [0, 0, 0, 0, 0]
   \<and> synth_right (set_delay 22000 5 knobs_init) 12000 =
       Inr (0, \<lparr>delay_samples = 5, delay_line = \<lparr>items = [0, 0, 0, 12000], maxlen = 5\<rparr>\<rparr>)"
  by (simp add: set_delay_def clamp_delay_def MIN_DELAY_def knobs_init_def deque_new_def
      synth_right_def deque_append_def deque_popleft_def Let_def eval_nat_numeral)

text \<open>
  The delay law of the code, for every D from 1 to the audio rate: after set_delay(D)
  changed the delay, the right channel of the next steps is their \<open>w_now\<close> values behind
  D - 1 zeros, and after at least one step the delay line holds D - 1 items.
\<close>

theorem delay_law_of_code:
  assumes "1 \<le> D" "D \<le> audio_hz" "D \<noteq> delay_samples k"
  shows "map_sum id fst (synth_run (set_delay audio_hz D k) (w # ws)) =
           Inr (take (Suc (length ws)) (replicate (nat D - 1) 0 @ w # ws))
         \<and> map_sum id (\<lambda>r. length (items (delay_line (snd r))))
             (synth_run (set_delay audio_hz D k) (w # ws)) = Inr (nat D - 1)"
proof -
  have c: "clamp_delay audio_hz D = D"
    using assms by (simp add: clamp_delay_def MIN_DELAY_def)
  have fresh: "set_delay audio_hz D k =
           k\<lparr>delay_samples := D,
             delay_line := \<lparr>items = replicate (nat D) 0, maxlen = nat D\<rparr>\<rparr>"
    using set_delay_fresh [of audio_hz D k] assms c by simp
  have tl0: "tl (replicate (nat D) (0::int)) = replicate (nat D - 1) 0"
    by (cases "nat D") simp_all
  show ?thesis
    unfolding fresh
    using assms(1) by (subst synth_run_full, simp, simp, simp)+ (simp add: tl0)
qed

theorem delay_law_of_code_witness:
  "map_sum id fst (synth_run (set_delay 22000 3 knobs_init) [12000, 0, 0, 12000]) =
     Inr [0, 0, 12000, 0]"
  using delay_law_of_code [of 3 22000 knobs_init 12000 "[0, 0, 12000]"]
  by (simp add: knobs_init_def numeral_3_eq_3)

text \<open>
  C10: set_delay(v) leaves the knobs, the delay line and its buffered history included,
  exactly as they were when v clamped to [0, audio_hz] equals \<open>delay_samples\<close>; otherwise
  \<open>delay_samples\<close> becomes the clamped value and the delay line is replaced by a
  zero-filled one of max(1, clamped value) items with that \<open>maxlen\<close>.
\<close>

theorem C10_set_delay_frame:
  "(clamp_delay audio_hz v = delay_samples k \<longrightarrow> set_delay audio_hz v k = k)
   \<and> (clamp_delay audio_hz v \<noteq> delay_samples k \<longrightarrow>
        delay_samples (set_delay audio_hz v k) = clamp_delay audio_hz v
        \<and> delay_line (set_delay audio_hz v k) =
            \<lparr>items = replicate (nat (max 1 (clamp_delay audio_hz v))) 0,
             maxlen = nat (max 1 (clamp_delay audio_hz v))\<rparr>)"
  by (auto simp: set_delay_def Let_def deque_new_def max_def)

theorem C10_set_delay_frame_witness:
  "clamp_delay 22000 99999 = 22000
   \<and> set_delay 22000 99999
       \<lparr>delay_samples = 22000, delay_line = \<lparr>items = [0, 12000, 0], maxlen = 22000\<rparr>\<rparr>
     = \<lparr>delay_samples = 22000, delay_line = \<lparr>items = [0, 12000, 0], maxlen = 22000\<rparr>\<rparr>
   \<and> delay_line (set_delay 22000 2
       \<lparr>delay_samples = 22000, delay_line = \<lparr>items = [0, 12000, 0], maxlen = 22000\<rparr>\<rparr>)
     = \<lparr>items = replicate (nat (max 1 (clamp_delay 22000 2))) 0,
        maxlen = nat (max 1 (clamp_delay 22000 2))\<rparr>"
  using C10_set_delay_frame [of 22000 99999
      "\<lparr>delay_samples = 22000, delay_line = \<lparr>items = [0, 12000, 0], maxlen = 22000\<rparr>\<rparr>"]
    C10_set_delay_frame [of 22000 2
      "\<lparr>delay_samples = 22000, delay_line = \<lparr>items = [0, 12000, 0], maxlen = 22000\<rparr>\<rparr>"]
  by (simp add: clamp_delay_def MIN_DELAY_def)

section \<open>Tape machine: proofs\<close>

lemma py_index_in_range:
  "py_index xs j = Inr p \<Longrightarrow> p < length xs"
  by (auto simp: py_index_def Let_def split: if_splits)

lemma py_index_nonneg:
  "0 \<le> j \<Longrightarrow> j < int (length xs) \<Longrightarrow> py_index xs j = Inr (nat j)"
  by (simp add: py_index_def Let_def)

lemma changed_cells_update:
  assumes "p < length xs"
  shows "changed_cells xs (xs[p := v]) = (if xs ! p = v then [] else [p])"
proof -
  have eq: "(\<lambda>j. xs ! j \<noteq> xs[p := v] ! j) = (\<lambda>j. j = p \<and> xs ! p \<noteq> v)"
    using assms by (auto simp: fun_eq_iff nth_list_update)
  show ?thesis
  proof (cases "xs ! p = v")
    case True
    then show ?thesis by (simp add: changed_cells_def eq)
  next
    case False
    have "filter (\<lambda>j. j = p) [0..<length xs] = [p]"
      using assms by (induction xs rule: rev_induct) (auto simp: less_Suc_eq)
    with False show ?thesis by (simp add: changed_cells_def eq)
  qed
qed

lemma loop_body_InrD:
  assumes "loop_body N P (st, k) = Inr (st', k', out)"
  obtains p rule rgt where
    "py_index (tape st) (i st) = Inr p"
    "P (pc st, tape st ! p) = Some rule"
    "synth_right k (bit_to_i16 (rule_write rule = 1)) = Inr (rgt, k')"
    "N \<noteq> 0"
    "st' = \<lparr>tape = (tape st)[p := rule_write rule],
            i = head_after (i st) (move rule) N,
            pc = next_pc rule,
            cycle = cycle st + 1\<rparr>"
    "out = \<lparr>read_sym = tape st ! p, write_sym = rule_write rule,
            left_sample = bit_to_i16 (tape st ! p = 1), right_sample = rgt,
            row = (cycle st div N) mod N, col = i st\<rparr>"
  using assms
  by (auto simp: loop_body_def Let_def split: sum.splits option.splits if_splits prod.splits)

section \<open>Claims on the tape machine\<close>

text \<open>
  C5, as stated (after one step exactly one tape cell changed): from the reset machine
  of length 4 under a table whose rule for (pc 1, read 0) writes 0, the step writes the
  0 it read and no cell changes.
\<close>

theorem C5_no_cell_changed_counterexample:
  "initial_machine 4 = Inr \<lparr>tape = [0, 1, 0, 0], i = 0, pc = 1, cycle = 0\<rparr>
   \<and> loop_body 4
        [(1, 0) \<mapsto> \<lparr>rule_write = 0, move = 1, next_pc = 1\<rparr>,
         (1, 1) \<mapsto> \<lparr>rule_write = 1, move = 1, next_pc = 1\<rparr>]
        (\<lparr>tape = [0, 1, 0, 0], i = 0, pc = 1, cycle = 0\<rparr>, knobs_init)
       = Inr (\<lparr>tape = [0, 1, 0, 0], i = 1, pc = 1, cycle = 1\<rparr>, knobs_init,
              \<lparr>read_sym = 0, write_sym = 0, left_sample = 0, right_sample = 0,
               row = 0, col = 0\<rparr>)
   \<and> changed_cells [0, 1, 0, 0] [0, 1, 0, 0] = []"
  by (simp add: initial_machine_def reset_machine_def py_index_def loop_body_def Let_def
      knobs_init_def synth_right_def bit_to_i16_def head_after_def changed_cells_def
      eval_nat_numeral)

text \<open>
  C5, amended: for every machine state from which the step completes (the head indexes
  the tape and the rule lookup succeeds), the step writes the symbol of the rule that the
  table holds for the current state and the symbol read into the cell at the pre-step
  head and touches no other cell, so at most one cell changes, and that cell changes
  exactly when the symbol written differs from the symbol read; the tape keeps its
  length; \<open>cycle\<close> goes up by exactly 1; and the symbol read that the step reports is
  the value of that cell before the write.
\<close>

theorem C5_step_frame:
  assumes "loop_body N P (st, k) = Inr (st', k', out)"
  shows "\<exists>p rule. py_index (tape st) (i st) = Inr p
           \<and> p < length (tape st)
           \<and> P (pc st, tape st ! p) = Some rule
           \<and> write_sym out = rule_write rule
           \<and> tape st' = (tape st)[p := rule_write rule]
           \<and> tape st' ! p = rule_write rule
           \<and> length (tape st') = length (tape st)
           \<and> (\<forall>j. j \<noteq> p \<longrightarrow> tape st' ! j = tape st ! j)
           \<and> read_sym out = tape st ! p
           \<and> changed_cells (tape st) (tape st')
               = (if rule_write rule = tape st ! p then [] else [p])
           \<and> cycle st' = cycle st + 1"
  using assms
proof (elim loop_body_InrD)
  fix p and rule :: Rule and rgt
  assume idx: "py_index (tape st) (i st) = Inr p"
    and rule: "P (pc st, tape st ! p) = Some rule"
    and st': "st' = \<lparr>tape = (tape st)[p := rule_write rule],
            i = head_after (i st) (move rule) N,
            pc = next_pc rule,
            cycle = cycle st + 1\<rparr>"
    and out: "out = \<lparr>read_sym = tape st ! p, write_sym = rule_write rule,
            left_sample = bit_to_i16 (tape st ! p = 1), right_sample = rgt,
            row = (cycle st div N) mod N, col = i st\<rparr>"
  have p: "p < length (tape st)"
    using idx by (rule py_index_in_range)
  have ch: "changed_cells (tape st) (tape st')
               = (if rule_write rule = tape st ! p then [] else [p])"
    using changed_cells_update [OF p, of "rule_write rule"] by (auto simp: st')
  have frame: "\<forall>j. j \<noteq> p \<longrightarrow> tape st' ! j = tape st ! j"
    by (simp add: st')
  have "py_index (tape st) (i st) = Inr p
           \<and> p < length (tape st)
           \<and> P (pc st, tape st ! p) = Some rule
           \<and> write_sym out = rule_write rule
           \<and> tape st' = (tape st)[p := rule_write rule]
           \<and> tape st' ! p = rule_write rule
           \<and> length (tape st') = length (tape st)
           \<and> (\<forall>j. j \<noteq> p \<longrightarrow> tape st' ! j = tape st ! j)
           \<and> read_sym out = tape st ! p
           \<and> changed_cells (tape st) (tape st')
               = (if rule_write rule = tape st ! p then [] else [p])
           \<and> cycle st' = cycle st + 1"
    using idx p rule ch frame by (simp add: st' out)
  then show ?thesis by blast
qed

theorem C5_step_frame_witness:
  "\<exists>p rule. py_index [0, 1, 0, 0] 1 = Inr p
       \<and> [(1, 0) \<mapsto> \<lparr>rule_write = 1, move = 1, next_pc = 1\<rparr>,
           (1, 1) \<mapsto> \<lparr>rule_write = 0, move = 1, next_pc = 1\<rparr>] (1, [0, 1, 0, 0] ! p)
           = Some rule
       \<and> [0, 0, 0, 0] = [0, 1, 0, 0][p := rule_write rule]
       \<and> changed_cells [0, 1, 0, 0] [0, 0, 0, 0] = [p]"
proof -
  have run: "loop_body 4
      [(1, 0) \<mapsto> \<lparr>rule_write = 1, move = 1, next_pc = 1\<rparr>,
       (1, 1) \<mapsto> \<lparr>rule_write = 0, move = 1, next_pc = 1\<rparr>]
      (\<lparr>tape = [0, 1, 0, 0], i = 1, pc = 1, cycle = 1\<rparr>, knobs_init)
    = Inr (\<lparr>tape = [0, 0, 0, 0], i = 2, pc = 1, cycle = 2\<rparr>, knobs_init,
           \<lparr>read_sym = 1, write_sym = 0, left_sample = 12000, right_sample = 0,
            row = 0, col = 1\<rparr>)"
    by (simp add: loop_body_def py_index_def Let_def knobs_init_def synth_right_def
        bit_to_i16_def head_after_def)
  from C5_step_frame [OF run] show ?thesis
    by (simp add: py_index_def Let_def changed_cells_def)
qed

text \<open>
  C6: for every tape length N >= 1 and every prior state, reset_machine succeeds and
  leaves a tape of N cells that are all 0 except the cell at index N div 4, which is 1,
  with the head \<open>i\<close> at 0, \<open>pc\<close> at 1 (the initial control state) and \<open>cycle\<close> at 0.
\<close>

theorem C6_reset:
  assumes "1 \<le> N"
  shows "reset_machine state N =
           Inr \<lparr>tape = (replicate (nat N) 0)[nat (N div 4) := 1], i = 0, pc = 1, cycle = 0\<rparr>
         \<and> length ((replicate (nat N) (0::int))[nat (N div 4) := 1]) = nat N
         \<and> nat (N div 4) < nat N
         \<and> (\<forall>j < nat N. (replicate (nat N) (0::int))[nat (N div 4) := 1] ! j
               = (if j = nat (N div 4) then 1 else 0))"
proof -
  have q: "0 \<le> N div 4" "N div 4 < N"
    using assms by simp_all
  then have idx: "py_index (replicate (nat N) (0::int)) (N div 4) = Inr (nat (N div 4))"
    by (simp add: py_index_nonneg)
  have lt: "nat (N div 4) < nat N"
    using q assms by linarith
  have cells: "\<forall>j < nat N. (replicate (nat N) (0::int))[nat (N div 4) := 1] ! j
               = (if j = nat (N div 4) then 1 else 0)"
    using lt by (simp add: nth_list_update)
  have "reset_machine state N =
           Inr \<lparr>tape = (replicate (nat N) 0)[nat (N div 4) := 1], i = 0, pc = 1, cycle = 0\<rparr>"
    by (simp add: reset_machine_def Let_def idx)
  with lt cells show ?thesis by simp
qed

theorem C6_reset_witness:
  "reset_machine \<lparr>tape = [1, 1, 0], i = 2, pc = 7, cycle = 99\<rparr> 8 =
     Inr \<lparr>tape = [0, 0, 1, 0, 0, 0, 0, 0], i = 0, pc = 1, cycle = 0\<rparr>"
  using C6_reset [of 8 "\<lparr>tape = [1, 1, 0], i = 2, pc = 7, cycle = 99\<rparr>"]
  by (simp add: eval_nat_numeral)

text \<open>
  C7: for every tape length N >= 1 the head update \<open>(tc + rule.move) % N\<close> lands in
  [0, N), whatever the head and the move; from head 0 a move of -1 goes to N - 1, and
  from head N - 1 a move of +1 goes to 0. Every completed step sets the head to that
  value for the move of the rule it looked up, so a step from head 0 with move -1 ends
  at N - 1 and a step from head N - 1 with move +1 ends at 0.
\<close>

theorem C7_head_wraps:
  assumes "1 \<le> N"
  shows "0 \<le> head_after tc mv N \<and> head_after tc mv N < N
         \<and> head_after tc mv N = (tc + mv) mod N
         \<and> head_after 0 (- 1) N = N - 1
         \<and> head_after (N - 1) 1 N = 0
         \<and> (\<forall>P st k st' k' out.
               loop_body N P (st, k) = Inr (st', k', out) \<longrightarrow>
               (\<exists>p rule. py_index (tape st) (i st) = Inr p
                   \<and> P (pc st, tape st ! p) = Some rule
                   \<and> i st' = (i st + move rule) mod N
                   \<and> 0 \<le> i st' \<and> i st' < N
                   \<and> (i st = 0 \<and> move rule = - 1 \<longrightarrow> i st' = N - 1)
                   \<and> (i st = N - 1 \<and> move rule = 1 \<longrightarrow> i st' = 0)))"
proof -
  have rng: "0 \<le> head_after a b N \<and> head_after a b N < N" for a b
    using assms by (simp add: head_after_def)
  have left: "head_after 0 (- 1) N = N - 1"
    using assms by (simp add: head_after_def zmod_minus1)
  have right: "head_after (N - 1) 1 N = 0"
    by (simp add: head_after_def)
  have step: "\<exists>p rule. py_index (tape st) (i st) = Inr p
                   \<and> P (pc st, tape st ! p) = Some rule
                   \<and> i st' = (i st + move rule) mod N
                   \<and> 0 \<le> i st' \<and> i st' < N
                   \<and> (i st = 0 \<and> move rule = - 1 \<longrightarrow> i st' = N - 1)
                   \<and> (i st = N - 1 \<and> move rule = 1 \<longrightarrow> i st' = 0)"
    if run: "loop_body N P (st, k) = Inr (st', k', out)" for P st k st' k' out
    using run
  proof (elim loop_body_InrD)
    fix p and rule :: Rule and rgt
    assume idx: "py_index (tape st) (i st) = Inr p"
      and rule: "P (pc st, tape st ! p) = Some rule"
      and st': "st' = \<lparr>tape = (tape st)[p := rule_write rule],
            i = head_after (i st) (move rule) N,
            pc = next_pc rule,
            cycle = cycle st + 1\<rparr>"
    have hd: "i st' = head_after (i st) (move rule) N"
      by (simp add: st')
    have "py_index (tape st) (i st) = Inr p
                   \<and> P (pc st, tape st ! p) = Some rule
                   \<and> i st' = (i st + move rule) mod N
                   \<and> 0 \<le> i st' \<and> i st' < N
                   \<and> (i st = 0 \<and> move rule = - 1 \<longrightarrow> i st' = N - 1)
                   \<and> (i st = N - 1 \<and> move rule = 1 \<longrightarrow> i st' = 0)"
      using idx rule rng [of "i st" "move rule"] left right
      by (auto simp: hd head_after_def)
    then show ?thesis by blast
  qed
  have def: "head_after tc mv N = (tc + mv) mod N"
    by (simp add: head_after_def)
  from rng [of tc mv] def left right step show ?thesis by blast
qed

theorem C7_head_wraps_witness:
  "loop_body 8
      [(1, 0) \<mapsto> \<lparr>rule_write = 1, move = - 1, next_pc = 1\<rparr>,
       (1, 1) \<mapsto> \<lparr>rule_write = 1, move = 1, next_pc = 1\<rparr>]
      (\<lparr>tape = [0, 0, 1, 0, 0, 0, 0, 0], i = 0, pc = 1, cycle = 0\<rparr>, knobs_init)
    = Inr (\<lparr>tape = [1, 0, 1, 0, 0, 0, 0, 0], i = 7, pc = 1, cycle = 1\<rparr>, knobs_init,
           \<lparr>read_sym = 0, write_sym = 1, left_sample = 0, right_sample = 12000,
            row = 0, col = 0\<rparr>)
   \<and> loop_body 8
      [(1, 0) \<mapsto> \<lparr>rule_write = 1, move = - 1, next_pc = 1\<rparr>,
       (1, 1) \<mapsto> \<lparr>rule_write = 1, move = 1, next_pc = 1\<rparr>]
      (\<lparr>tape = [1, 0, 1, 0, 0, 0, 0, 1], i = 7, pc = 1, cycle = 1\<rparr>, knobs_init)
    = Inr (\<lparr>tape = [1, 0, 1, 0, 0, 0, 0, 1], i = 0, pc = 1, cycle = 2\<rparr>, knobs_init,
           \<lparr>read_sym = 1, write_sym = 1, left_sample = 12000, right_sample = 12000,
            row = 0, col = 7\<rparr>)
   \<and> head_after 0 (- 1) 8 = 7 \<and> head_after 7 1 8 = 0 \<and> head_after 3 (- 1) 8 = 2"
  using C7_head_wraps [of 8 3 "- 1"]
  by (simp add: loop_body_def py_index_def Let_def knobs_init_def synth_right_def
      bit_to_i16_def head_after_def)

section \<open>Claims on the playback driver\<close>

lemma dispatch_steady:
  "started_audio d \<Longrightarrow> dispatch d busy = (if busy then ChanQueue else ChanPlay, d)"
  by (simp add: dispatch_def)

text \<open>
  C9: once the driver is in the steady state (\<open>started_audio\<close> is set), each sealed
  packet is queued when the device is busy and played at once when it is not, the
  driver's state is left as it is (it stays in the steady state, and \<open>prime_count\<close> is
  not touched), so the packets after an underrun are handled by the same rule.
\<close>

theorem C9_steady_state:
  assumes "started_audio d"
  shows "dispatch_all d busys = (map (\<lambda>busy. if busy then ChanQueue else ChanPlay) busys, d)"
  using assms
  by (induction busys) (simp_all add: dispatch_steady)

theorem C9_steady_state_witness:
  "dispatch_all driver_init [True, True, False]
     = ([ChanPlay, ChanQueue, ChanQueue], \<lparr>started_audio = True, prime_count = 3\<rparr>)
   \<and> dispatch_all \<lparr>started_audio = True, prime_count = 3\<rparr> [True, False, True, True]
     = ([ChanQueue, ChanPlay, ChanQueue, ChanQueue], \<lparr>started_audio = True, prime_count = 3\<rparr>)"
  using C9_steady_state [of "\<lparr>started_audio = True, prime_count = 3\<rparr>"
      "[True, False, True, True]"]
  by (simp add: driver_init_def dispatch_def PRIME_CHUNKS_def Let_def)

section \<open>load_program: proofs\<close>

lemma parse_row_fails_iff:
  "isl (parse_row r) \<longleftrightarrow> row_rejected r"
  by (auto simp: parse_row_def row_rejected_def move_of_def Let_def
      split: sum.splits option.splits if_splits)

lemma parse_row_key:
  "parse_row r = Inr (key, rule) \<Longrightarrow>
     py_int (r (py_str ''pc'')) = Inr (fst key) \<and> py_int (r (py_str ''read'')) = Inr (snd key)"
  by (auto simp: parse_row_def Let_def split: sum.splits option.splits if_splits)

lemma load_rows_fails_iff:
  "isl (load_rows rs P S) \<longleftrightarrow> (\<exists>r \<in> set rs. row_rejected r)"
proof (induction rs arbitrary: P S)
  case Nil
  then show ?case by simp
next
  case (Cons r rs)
  show ?case
  proof (cases "parse_row r")
    case (Inl e)
    then have "row_rejected r"
      using parse_row_fails_iff [of r] by simp
    with Inl show ?thesis by simp
  next
    case (Inr kr)
    then have "\<not> row_rejected r"
      using parse_row_fails_iff [of r] by simp
    with Inr Cons.IH show ?thesis by (simp split: prod.splits)
  qed
qed

lemma load_rows_result:
  assumes "load_rows rs P S = Inr (P', S')"
  shows "S' = S \<union> {p. \<exists>rd. declares rs p rd}
         \<and> dom P' = dom P \<union> {(p, rd). declares rs p rd}"
  using assms
proof (induction rs arbitrary: P S)
  case Nil
  then show ?case by (simp add: declares_def)
next
  case (Cons r rs)
  from Cons.prems obtain key rule where
    row: "parse_row r = Inr (key, rule)" and
    rest: "load_rows rs (P(key \<mapsto> rule)) (insert (fst key) S) = Inr (P', S')"
    by (auto split: sum.splits prod.splits)
  from parse_row_key [OF row]
  have cells: "py_int (r (py_str ''pc'')) = Inr (fst key)" "py_int (r (py_str ''read'')) = Inr (snd key)"
    by simp_all
  have decl: "declares (r # rs) p rd \<longleftrightarrow> (p, rd) = key \<or> declares rs p rd" for p rd
    using cells by (cases key) (auto simp: declares_def)
  have domk: "dom (P(key \<mapsto> rule)) = insert key (dom P)"
    by simp
  from Cons.IH [OF rest]
  have S': "S' = insert (fst key) S \<union> {p. \<exists>rd. declares rs p rd}"
    and P': "dom P' = insert key (dom P) \<union> {(p, rd). declares rs p rd}"
    unfolding domk by blast+
  have "S' = S \<union> {p. \<exists>rd. declares (r # rs) p rd}"
    unfolding S' decl by (cases key) auto
  moreover have "dom P' = dom P \<union> {(p, rd). declares (r # rs) p rd}"
    unfolding P' decl by (cases key) auto
  ultimately show ?case by simp
qed

lemma not_total_iff:
  assumes "\<forall>r \<in> set rows. \<not> row_rejected r"
  shows "not_total rows \<longleftrightarrow>
     (\<exists>p. (\<exists>rd. declares rows p rd) \<and> (\<not> declares rows p 0 \<or> \<not> declares rows p 1))"
proof
  assume "not_total rows"
  then obtain r where r1: "r \<in> set rows"
    and c: "case py_int (r (py_str ''pc'')) of
              Inl e \<Rightarrow> False
            | Inr p \<Rightarrow> \<not> declares rows p 0 \<or> \<not> declares rows p 1"
    by (auto simp: not_total_def list_ex_iff)
  from c obtain p where r2: "py_int (r (py_str ''pc'')) = Inr p"
    and miss: "\<not> declares rows p 0 \<or> \<not> declares rows p 1"
    by (cases "py_int (r (py_str ''pc''))") auto
  note r = r1 r2
  from assms r(1) have "\<not> isl (py_int (r (py_str ''read'')))"
    by (auto simp: row_rejected_def)
  then obtain rd where "py_int (r (py_str ''read'')) = Inr rd"
    by (cases "py_int (r (py_str ''read''))") auto
  with r have "declares rows p rd"
    by (auto simp: declares_def list_ex_iff)
  with miss
  show "\<exists>p. (\<exists>rd. declares rows p rd) \<and> (\<not> declares rows p 0 \<or> \<not> declares rows p 1)"
    by blast
next
  assume "\<exists>p. (\<exists>rd. declares rows p rd) \<and> (\<not> declares rows p 0 \<or> \<not> declares rows p 1)"
  then obtain p rd where d: "declares rows p rd"
    and miss: "\<not> declares rows p 0 \<or> \<not> declares rows p 1"
    by blast
  from d obtain r where r: "r \<in> set rows" "py_int (r (py_str ''pc'')) = Inr p"
    by (auto simp: declares_def list_ex_iff)
  have "case py_int (r (py_str ''pc'')) of
          Inl e \<Rightarrow> False
        | Inr p \<Rightarrow> \<not> declares rows p 0 \<or> \<not> declares rows p 1"
    using miss by (simp add: r(2))
  with r(1) show "not_total rows"
    unfolding not_total_def list_ex_iff by blast
qed

lemma check_total_fails_iff:
  "isl (check_total P S) \<longleftrightarrow> (\<exists>p \<in> S. (p, 0) \<notin> dom P \<or> (p, 1) \<notin> dom P)"
  by (auto simp: check_total_def dom_def)

lemma load_rows_then_check:
  assumes "load_rows rows Map.empty {} = Inr (P, S)"
  shows "isl (check_total P S) \<longleftrightarrow> not_total rows"
proof -
  from load_rows_result [OF assms]
  have S: "S = {p. \<exists>rd. declares rows p rd}"
    and P: "dom P = {(p, rd). declares rows p rd}"
    by simp_all
  have ok: "\<forall>r \<in> set rows. \<not> row_rejected r"
    using load_rows_fails_iff [of rows Map.empty "{}"] assms by simp
  have "isl (check_total P S) \<longleftrightarrow>
          (\<exists>p. (\<exists>rd. declares rows p rd) \<and> (\<not> declares rows p 0 \<or> \<not> declares rows p 1))"
    unfolding check_total_fails_iff by (auto simp: S P)
  then show ?thesis
    using not_total_iff [OF ok] by simp
qed

text \<open>
  The builtins on cells outside plain ASCII digits and letters: a literal of more than
  4300 digits is refused; a no-break space is stripped from a move cell but a file
  separator character is not skipped by \<open>int\<close>; the long s is upper-cased to S; digits
  of other scripts are read by \<open>int\<close>.
\<close>

lemma parse_digits_zeros:
  "parse_digits 0 (replicate n 48) = Some 0"
proof (induction n rule: less_induct)
  case (less n)
  show ?case
  proof (cases n)
    case 0
    then show ?thesis by simp
  next
    case (Suc m)
    show ?thesis
    proof (cases m)
      case 0
      with Suc show ?thesis by (simp add: digit_of_def)
    next
      case (Suc l)
      have "parse_digits 0 (replicate (Suc l) 48) = Some 0"
        using less.IH [of "Suc l"] \<open>n = Suc m\<close> Suc by simp
      with \<open>n = Suc m\<close> Suc show ?thesis by (simp add: digit_of_def)
    qed
  qed
qed

lemma int_digit_limit:
  assumes "0 < n"
  shows "py_int (Some (replicate n 48)) = (if n \<le> 4300 then Inr 0 else Inl ValueError)"
proof -
  obtain m where n: "n = Suc m" using assms by (cases n) auto
  have strip: "int_strip (replicate n 48) = replicate n 48"
    by (simp add: int_strip_def is_int_space_def)
  have nat: "parse_nat (48 # replicate m 48) = (if m \<le> 4299 then Some 0 else None)"
    using parse_digits_zeros [of m]
    by (simp add: parse_nat_def max_str_digits_def digit_of_def)
  show ?thesis
    by (simp add: py_int_def Let_def strip) (simp add: n nat)
qed

lemma unicode_cells:
  "upper (strip [160, 82]) = py_str ''R''
   \<and> upper [383] = py_str ''S''
   \<and> upper [223] = py_str ''SS''
   \<and> py_int (Some [1635, 160]) = Inr 3
   \<and> py_int (Some [28, 49]) = Inl ValueError
   \<and> strip [28, 49] = [49]
   \<and> \<not> isl (load_program (Csv header
         [csv_cells (py_str ''1'') (py_str ''0'') (py_str ''1'') [160, 82] (py_str ''1''),
          csv_cells (py_str ''1'') [65297] (py_str ''1'') [383] (py_str ''1'')]))"
  by code_simp

section \<open>Claims on load_program and on the rule lookup\<close>

text \<open>
  C8, as stated (loading fails only for a missing file, a missing column, a bad move
  token, a bad write value or a state without both rules): the file below exists, has all
  five columns, its move tokens are R, its write values are 1 and its only state, 1, has
  the rule for read 0 and the rule for read 1; loading still fails, with the ValueError
  that \<open>int("one")\<close> raises for the \<open>next_pc\<close> cell of the first row.
\<close>

theorem C8_bad_integer_counterexample:
  "load_program (Csv header [csv_row ''1'' ''0'' ''1'' ''R'' ''one'',
                            csv_row ''1'' ''1'' ''1'' ''R'' ''1'']) = Inl ValueError
   \<and> required \<subseteq> set header
   \<and> move_of (py_str ''R'') = Some 1
   \<and> py_int (Some (py_str ''1'')) = Inr 1
   \<and> py_int (Some (py_str ''0'')) = Inr 0
   \<and> py_int (Some (py_str ''one'')) = Inl ValueError
   \<and> \<not> not_total [csv_row ''1'' ''0'' ''1'' ''R'' ''one'', csv_row ''1'' ''1'' ''1'' ''R'' ''1'']"
proof -
  have "map_sum id (\<lambda>_. ())
          (load_program (Csv header [csv_row ''1'' ''0'' ''1'' ''R'' ''one'',
                                    csv_row ''1'' ''1'' ''1'' ''R'' ''1''])) = Inl ValueError"
    by code_simp
  then have load: "load_program (Csv header [csv_row ''1'' ''0'' ''1'' ''R'' ''one'',
                            csv_row ''1'' ''1'' ''1'' ''R'' ''1'']) = Inl ValueError"
    by (cases "load_program (Csv header [csv_row ''1'' ''0'' ''1'' ''R'' ''one'',
                            csv_row ''1'' ''1'' ''1'' ''R'' ''1''])") simp_all
  have rest: "required \<subseteq> set header
     \<and> move_of (py_str ''R'') = Some 1
     \<and> py_int (Some (py_str ''1'')) = Inr 1
     \<and> py_int (Some (py_str ''0'')) = Inr 0
     \<and> py_int (Some (py_str ''one'')) = Inl ValueError
     \<and> \<not> not_total [csv_row ''1'' ''0'' ''1'' ''R'' ''one'', csv_row ''1'' ''1'' ''1'' ''R'' ''1'']"
    by code_simp
  from load rest show ?thesis by simp
qed

text \<open>
  C8, amended: loading fails if and only if the file is missing, or opening or reading it
  raises, or a required column is absent, or some row is refused (a \<open>pc\<close>, \<open>read\<close>,
  \<open>write\<close> or \<open>next_pc\<close> cell is missing or is not an integer literal that \<open>int\<close>
  accepts, which a literal of more than 4300 digits is not; the \<open>move\<close> cell is missing
  or, stripped and upper-cased, is not one of L, R, S; the write value is not 0, 1 or 2),
  or some state that a row names lacks its rule for read 0 or for read 1.
\<close>

theorem C8_load_fails_iff:
  "isl (load_program src) \<longleftrightarrow>
     (case src of
        NoFile \<Rightarrow> True
      | Unreadable e \<Rightarrow> True
      | Csv fieldnames rows \<Rightarrow>
          \<not> required \<subseteq> set fieldnames \<or> list_ex row_rejected rows \<or> not_total rows)"
proof (cases src)
  case NoFile
  then show ?thesis by (simp add: load_program_def)
next
  case (Unreadable e)
  then show ?thesis by (simp add: load_program_def)
next
  case (Csv fieldnames rows)
  show ?thesis
  proof (cases "load_rows rows Map.empty {}")
    case (Inl e)
    then have "list_ex row_rejected rows"
      using load_rows_fails_iff [of rows Map.empty "{}"] by (simp add: list_ex_iff)
    with Inl Csv show ?thesis by (simp add: load_program_def)
  next
    case (Inr ps)
    obtain P S where ps: "ps = (P, S)" by (cases ps)
    have ok: "\<not> list_ex row_rejected rows"
      using load_rows_fails_iff [of rows Map.empty "{}"] Inr by (simp add: list_ex_iff)
    from load_rows_then_check [OF Inr [unfolded ps]] ok Inr Csv
    show ?thesis by (simp add: load_program_def ps)
  qed
qed

text \<open>
  The instance of the spec's totality test: a file that declares state 3 with only its
  read 0 row is refused.
\<close>

theorem C8_load_fails_iff_witness:
  "isl (load_program (Csv header [csv_row ''3'' ''0'' ''1'' ''R'' ''3'']))"
proof -
  have nt: "not_total [csv_row ''3'' ''0'' ''1'' ''R'' ''3'']"
    by code_simp
  show ?thesis
    using C8_load_fails_iff [of "Csv header [csv_row ''3'' ''0'' ''1'' ''R'' ''3'']"] nt
    by simp
qed

text \<open>
  C4 (no rule lookup fails once the table passed validation): the file with the rows
  \<open>1,0,1,R,2\<close> and \<open>1,1,1,R,2\<close> passes load_program, since its only key state, 1, has
  both rules; on a tape of 8 cells the first step leaves \<open>pc = 2\<close>, and the lookup of the
  second step raises KeyError. A file with the header alone passes as well, and then the
  very first lookup, for the initial \<open>pc = 1\<close>, raises KeyError.
\<close>

theorem C4_lookup_fails_after_validation:
  "\<not> isl (load_program (Csv header [csv_row ''1'' ''0'' ''1'' ''R'' ''2'',
                                     csv_row ''1'' ''1'' ''1'' ''R'' ''2'']))
   \<and> run_from_start 1 8 (Csv header [csv_row ''1'' ''0'' ''1'' ''R'' ''2'',
                                      csv_row ''1'' ''1'' ''1'' ''R'' ''2''])
       = Inr (\<lparr>tape = [1, 0, 1, 0, 0, 0, 0, 0], i = 1, pc = 2, cycle = 1\<rparr>, knobs_init)
   \<and> run_from_start 2 8 (Csv header [csv_row ''1'' ''0'' ''1'' ''R'' ''2'',
                                      csv_row ''1'' ''1'' ''1'' ''R'' ''2''])
       = Inl KeyError
   \<and> \<not> isl (load_program (Csv header []))
   \<and> run_from_start 1 8 (Csv header []) = Inl KeyError"
  by code_simp

section \<open>Further properties of the code\<close>

lemma synth_right_total:
  assumes "0 < maxlen (delay_line k)"
  shows "\<exists>rgt k'. synth_right k w = Inr (rgt, k') \<and> 0 < maxlen (delay_line k')"
proof (cases "delay_samples k \<le> 0")
  case True
  then show ?thesis using assms by (simp add: synth_right_def)
next
  case False
  obtain y ys where "items (deque_append (delay_line k) w) = y # ys"
    using assms
    by (cases "items (deque_append (delay_line k) w)")
       (auto simp: deque_append_def split: if_splits)
  then show ?thesis
    using False assms
    by (auto simp: synth_right_def deque_popleft_def deque_append_def split: if_splits)
qed

lemma loop_body_keeps_inv:
  assumes "closed_table P" "step_inv N P (st, k)"
  shows "\<exists>st' k' out. loop_body N P (st, k) = Inr (st', k', out) \<and> step_inv N P (st', k')"
proof -
  from assms(2) have len: "int (length (tape st)) = N"
    and hd: "0 \<le> i st" "i st < N"
    and sym: "set (tape st) \<subseteq> {0, 1}"
    and rules: "P (pc st, 0) \<noteq> None" "P (pc st, 1) \<noteq> None"
    and cap: "0 < maxlen (delay_line k)"
    by (simp_all add: step_inv_def)
  have idx: "py_index (tape st) (i st) = Inr (nat (i st))"
    using hd len by (simp add: py_index_nonneg)
  have p: "nat (i st) < length (tape st)"
    using hd len by linarith
  then have "tape st ! nat (i st) \<in> {0, 1}"
    using sym nth_mem by blast
  then obtain rule where rule: "P (pc st, tape st ! nat (i st)) = Some rule"
    using rules by auto
  from assms(1) rule have wr: "rule_write rule = 0 \<or> rule_write rule = 1"
    and nxt: "P (next_pc rule, 0) \<noteq> None" "P (next_pc rule, 1) \<noteq> None"
    unfolding closed_table_def by blast+
  obtain rgt k' where syn: "synth_right k (bit_to_i16 (rule_write rule = 1)) = Inr (rgt, k')"
    and cap': "0 < maxlen (delay_line k')"
    using synth_right_total [OF cap] by blast
  have N: "N \<noteq> 0" "0 < N" using hd by linarith+
  let ?st' = "\<lparr>tape = (tape st)[nat (i st) := rule_write rule],
            i = head_after (i st) (move rule) N,
            pc = next_pc rule,
            cycle = cycle st + 1\<rparr>"
  have run: "loop_body N P (st, k) =
          Inr (?st', k',
               \<lparr>read_sym = tape st ! nat (i st), write_sym = rule_write rule,
                left_sample = bit_to_i16 (tape st ! nat (i st) = 1), right_sample = rgt,
                row = (cycle st div N) mod N, col = i st\<rparr>)"
    using N(1) by (simp add: loop_body_def Let_def idx rule syn)
  have "set ((tape st)[nat (i st) := rule_write rule]) \<subseteq> insert (rule_write rule) (set (tape st))"
    by (rule set_update_subset_insert)
  with sym wr have sym': "set ((tape st)[nat (i st) := rule_write rule]) \<subseteq> {0, 1}"
    by auto
  have "step_inv N P (?st', k')"
    using len N(2) sym' nxt cap' by (simp add: step_inv_def head_after_def)
  with run show ?thesis by blast
qed

lemma run_steps_keeps_inv:
  assumes "closed_table P" "step_inv N P sk"
  shows "\<exists>sk'. run_steps n N P sk = Inr sk' \<and> step_inv N P sk'"
  using assms(2)
proof (induction n arbitrary: sk)
  case 0
  then show ?case by simp
next
  case (Suc n)
  obtain st k where sk: "sk = (st, k)" by (cases sk)
  from loop_body_keeps_inv [OF assms(1) Suc.prems [unfolded sk]]
  obtain st' k' out where step: "loop_body N P (st, k) = Inr (st', k', out)"
    and inv': "step_inv N P (st', k')"
    by blast
  from Suc.IH [OF inv'] show ?case
    by (simp add: sk step)
qed

lemma initial_machine_inv:
  assumes "closed_table P" "1 \<le> N"
  shows "\<exists>st. initial_machine N = Inr st \<and> step_inv N P (st, knobs_init)"
proof -
  have q: "0 \<le> N div 4" "N div 4 < N"
    using assms(2) by simp_all
  then have idx: "py_index (replicate (nat N) (0::int)) (N div 4) = Inr (nat (N div 4))"
    by (simp add: py_index_nonneg)
  have st: "initial_machine N =
      Inr \<lparr>tape = (replicate (nat N) 0)[nat (N div 4) := 1], i = 0, pc = 1, cycle = 0\<rparr>"
    by (simp add: initial_machine_def reset_machine_def Let_def idx)
  have "set ((replicate (nat N) (0::int))[nat (N div 4) := 1])
          \<subseteq> insert 1 (set (replicate (nat N) 0))"
    by (rule set_update_subset_insert)
  then have sym: "set ((replicate (nat N) (0::int))[nat (N div 4) := 1]) \<subseteq> {0, 1}"
    by auto
  have "step_inv N P
      (\<lparr>tape = (replicate (nat N) 0)[nat (N div 4) := 1], i = 0, pc = 1, cycle = 0\<rparr>,
       knobs_init)"
    using assms sym
    by (simp add: step_inv_def closed_table_def knobs_init_def deque_new_def)
  with st show ?thesis by blast
qed

text \<open>
  Under a table that is closed under its transitions no step fails: for every tape
  length N >= 1 and every number of steps, the run from reset completes, and it keeps
  the head on the tape and the tape over the symbols 0 and 1.
\<close>

theorem closed_table_never_fails:
  assumes "closed_table P" "1 \<le> N"
  shows "\<exists>st sk. initial_machine N = Inr st
           \<and> run_steps n N P (st, knobs_init) = Inr sk
           \<and> step_inv N P sk"
proof -
  from initial_machine_inv [OF assms]
  obtain st where st: "initial_machine N = Inr st" and inv: "step_inv N P (st, knobs_init)"
    by blast
  from run_steps_keeps_inv [OF assms(1) inv, of n] st show ?thesis
    by blast
qed

theorem closed_table_never_fails_witness:
  "\<exists>st sk. initial_machine 8 = Inr st
      \<and> run_steps 16 8
           [(1, 0) \<mapsto> \<lparr>rule_write = 1, move = 1, next_pc = 2\<rparr>,
            (1, 1) \<mapsto> \<lparr>rule_write = 1, move = 1, next_pc = 2\<rparr>,
            (2, 0) \<mapsto> \<lparr>rule_write = 0, move = 1, next_pc = 1\<rparr>,
            (2, 1) \<mapsto> \<lparr>rule_write = 0, move = 1, next_pc = 1\<rparr>]
           (st, knobs_init) = Inr sk"
proof -
  have "closed_table
           [(1, 0) \<mapsto> \<lparr>rule_write = 1, move = 1, next_pc = 2\<rparr>,
            (1, 1) \<mapsto> \<lparr>rule_write = 1, move = 1, next_pc = 2\<rparr>,
            (2, 0) \<mapsto> \<lparr>rule_write = 0, move = 1, next_pc = 1\<rparr>,
            (2, 1) \<mapsto> \<lparr>rule_write = 0, move = 1, next_pc = 1\<rparr>]"
    by (auto simp: closed_table_def split: if_splits)
  from closed_table_never_fails [OF this, of 8 16] show ?thesis
    by auto
qed

text \<open>
  Priming: from the initial driver the first three sealed packets are played, queued and
  queued, whatever the device answers, and the driver is then in the steady state.
\<close>

theorem priming_three_packets:
  "dispatch_all driver_init [b1, b2, b3]
     = ([ChanPlay, ChanQueue, ChanQueue], \<lparr>started_audio = True, prime_count = 3\<rparr>)"
  by (simp add: driver_init_def dispatch_def PRIME_CHUNKS_def Let_def)

end
